theory Spec2Isabelle
  imports Main
begin

section \<open>Connect Four: board, win detection and evaluator\<close>

text \<open>
  The program is one JavaScript file, \<^verbatim>\<open>connect_four.js\<close>. A cell holds one of the
  constants \<^verbatim>\<open>EMPTY = 0\<close>, \<^verbatim>\<open>PLAYER = 1\<close>, \<^verbatim>\<open>OPPONENT = 2\<close>; the board is an array of
  \<^verbatim>\<open>ROWS = 6\<close> rows of \<^verbatim>\<open>COLS = 7\<close> cells, row 0 at the top.
\<close>

datatype cell = EMPTY | PLAYER | OPPONENT

type_synonym board = "cell list list"

abbreviation (input) ROWS :: nat where "ROWS \<equiv> 6"
abbreviation (input) COLS :: nat where "COLS \<equiv> 7"
abbreviation (input) MAX_DEPTH :: nat where "MAX_DEPTH \<equiv> 4"

text \<open>
  The boards the program builds: \<^verbatim>\<open>Array.from({length: ROWS}, () => Array(COLS).fill(EMPTY))\<close>
  and its later updates of single cells. Every read \<^verbatim>\<open>board[r][c]\<close> of the program on such a
  board is in range, either because the loop bounds are \<^verbatim>\<open>ROWS\<close> and \<^verbatim>\<open>COLS\<close> or because
  the read is guarded by an explicit bounds test.
\<close>

definition wf_board :: "board \<Rightarrow> bool" where
  "wf_board b \<longleftrightarrow> length b = ROWS \<and> list_all (\<lambda>r. length r = COLS) b"

definition empty_board :: board where
  "empty_board = replicate ROWS (replicate COLS EMPTY)"

definition cellAt :: "board \<Rightarrow> nat \<Rightarrow> nat \<Rightarrow> cell" where
  "cellAt b row col = b ! row ! col"

text \<open>The assignment \<^verbatim>\<open>board[row][col] = v\<close>.\<close>

definition set_cell :: "board \<Rightarrow> nat \<Rightarrow> nat \<Rightarrow> cell \<Rightarrow> board" where
  "set_cell b row col v = b[row := (b ! row)[col := v]]"

definition in_bounds :: "int \<Rightarrow> int \<Rightarrow> bool" where
  "in_bounds r c \<longleftrightarrow> r \<ge> 0 \<and> r < int ROWS \<and> c \<ge> 0 \<and> c < int COLS"

subsection \<open>checkDirection, checkWin, isBoardFull\<close>

text \<open>
  \<^verbatim>\<open>checkDirection\<close> returns false at the first of the four cells that is out of bounds or
  not the player's, and true when there is none.
\<close>

definition checkDirection :: "board \<Rightarrow> int \<Rightarrow> int \<Rightarrow> cell \<Rightarrow> int \<Rightarrow> int \<Rightarrow> bool" where
  "checkDirection b row col player dRow dCol =
     list_all (\<lambda>i. let r = row + i * dRow; c = col + i * dCol
                   in \<not> (r < 0 \<or> r \<ge> int ROWS \<or> c < 0 \<or> c \<ge> int COLS
                          \<or> cellAt b (nat r) (nat c) \<noteq> player))
              [0, 1, 2, 3]"

text \<open>
  \<^verbatim>\<open>checkWin\<close> returns \<^verbatim>\<open>player\<close> at the first cell of the row-major scan that starts a
  line, and \<^verbatim>\<open>null\<close> (\<open>None\<close>) when there is none.
\<close>

definition checkWin :: "board \<Rightarrow> cell \<Rightarrow> cell option" where
  "checkWin b player =
     (if list_ex (\<lambda>row. list_ex (\<lambda>col.
           cellAt b row col = player \<and>
           (checkDirection b (int row) (int col) player 1 0 \<or>
            checkDirection b (int row) (int col) player 0 1 \<or>
            checkDirection b (int row) (int col) player 1 1 \<or>
            checkDirection b (int row) (int col) player 1 (- 1)))
         [0..<COLS]) [0..<ROWS]
      then Some player else None)"

text \<open>
  JavaScript truthiness of what \<^verbatim>\<open>checkWin\<close> returns: \<^verbatim>\<open>null\<close> and the number 0 are falsy.
\<close>

fun truthy :: "cell option \<Rightarrow> bool" where
  "truthy None = False"
| "truthy (Some EMPTY) = False"
| "truthy (Some _) = True"

definition isBoardFull :: "board \<Rightarrow> bool" where
  "isBoardFull b = list_all (\<lambda>c. c \<noteq> EMPTY) (b ! 0)"

subsection \<open>evaluateLine and heuristic\<close>

definition directions :: "(int \<times> int) list" where
  "directions = [(0, 1), (1, 0), (1, 1), (1, - 1)]"

text \<open>\<^verbatim>\<open>player === PLAYER ? OPPONENT : PLAYER\<close>\<close>

definition other :: "cell \<Rightarrow> cell" where
  "other player = (if player = PLAYER then OPPONENT else PLAYER)"

text \<open>
  One pass of the inner loop of \<^verbatim>\<open>evaluateLine\<close>: the counters
  \<^verbatim>\<open>(countPlayer, countOpponent, emptyCount)\<close> after looking at cell \<open>i\<close> of the window.
\<close>

definition count_step ::
  "board \<Rightarrow> int \<Rightarrow> int \<Rightarrow> cell \<Rightarrow> int \<times> int \<Rightarrow> nat \<times> nat \<times> nat \<Rightarrow> int \<Rightarrow> nat \<times> nat \<times> nat" where
  "count_step b row col player d acc i =
     (case acc of (countPlayer, countOpponent, emptyCount) \<Rightarrow>
        let r = row + i * fst d; c = col + i * snd d in
        if r \<ge> 0 \<and> r < int ROWS \<and> c \<ge> 0 \<and> c < int COLS then
          (if cellAt b (nat r) (nat c) = player then (countPlayer + 1, countOpponent, emptyCount)
           else if cellAt b (nat r) (nat c) = other player
                then (countPlayer, countOpponent + 1, emptyCount)
           else (countPlayer, countOpponent, emptyCount + 1))
        else (countPlayer, countOpponent, emptyCount))"

definition window_counts :: "board \<Rightarrow> int \<Rightarrow> int \<Rightarrow> cell \<Rightarrow> int \<times> int \<Rightarrow> nat \<times> nat \<times> nat" where
  "window_counts b row col player d =
     foldl (count_step b row col player d) (0, 0, 0) [0, 1, 2, 3]"

text \<open>What the two \<^verbatim>\<open>if\<close> chains after the inner loop add to \<^verbatim>\<open>score\<close>.\<close>

definition window_delta :: "nat \<times> nat \<times> nat \<Rightarrow> int" where
  "window_delta cnt =
     (case cnt of (countPlayer, countOpponent, emptyCount) \<Rightarrow>
        (if countPlayer = 3 \<and> emptyCount = 1 then 100
         else if countOpponent = 3 \<and> emptyCount = 1 then - 100
         else if countPlayer = 2 \<and> emptyCount = 2 then 10
         else if countOpponent = 2 \<and> emptyCount = 2 then - 10
         else 0)
        + (if countPlayer = 1 \<and> emptyCount = 3 then 5
           else if countOpponent = 1 \<and> emptyCount = 3 then - 5
           else 0))"

definition evaluateLine :: "board \<Rightarrow> int \<Rightarrow> int \<Rightarrow> cell \<Rightarrow> int" where
  "evaluateLine b row col player =
     foldl (\<lambda>score d. score + window_delta (window_counts b row col player d)) 0 directions"

text \<open>The body of the two loops of \<^verbatim>\<open>heuristic\<close> at one cell.\<close>

definition heuristic_cell :: "board \<Rightarrow> nat \<Rightarrow> nat \<Rightarrow> int \<Rightarrow> int" where
  "heuristic_cell b row col score =
     (if cellAt b row col = OPPONENT then score + evaluateLine b (int row) (int col) OPPONENT
      else if cellAt b row col = PLAYER then score - evaluateLine b (int row) (int col) PLAYER
      else score)"

definition heuristic :: "board \<Rightarrow> int" where
  "heuristic b =
     foldl (\<lambda>score row. foldl (\<lambda>score col. heuristic_cell b row col score) score [0..<COLS])
           0 [0..<ROWS]"

text \<open>Exchanging the two sides on every cell of a board.\<close>

fun swap_cell :: "cell \<Rightarrow> cell" where
  "swap_cell EMPTY = EMPTY"
| "swap_cell PLAYER = OPPONENT"
| "swap_cell OPPONENT = PLAYER"

definition swap_board :: "board \<Rightarrow> board" where
  "swap_board b = map (map swap_cell) b"


section \<open>Hard mode: minimax with in-place writes\<close>

text \<open>
  Scores are JavaScript numbers. The evaluator returns integers and the search starts from
  \<^verbatim>\<open>-Infinity\<close> and \<^verbatim>\<open>Infinity\<close>; \<^verbatim>\<open>Math.max\<close>, \<^verbatim>\<open>Math.min\<close> and the
  comparisons never leave these values.
\<close>

datatype jsnum = NegInf | Fin int | PosInf

fun js_le :: "jsnum \<Rightarrow> jsnum \<Rightarrow> bool" where
  "js_le NegInf _ = True"
| "js_le (Fin a) NegInf = False"
| "js_le (Fin a) (Fin b) = (a \<le> b)"
| "js_le (Fin a) PosInf = True"
| "js_le PosInf PosInf = True"
| "js_le PosInf _ = False"

definition js_gt :: "jsnum \<Rightarrow> jsnum \<Rightarrow> bool" where
  "js_gt a b = (\<not> js_le a b)"

definition js_max :: "jsnum \<Rightarrow> jsnum \<Rightarrow> jsnum" where
  "js_max a b = (if js_le a b then b else a)"

definition js_min :: "jsnum \<Rightarrow> jsnum \<Rightarrow> jsnum" where
  "js_min a b = (if js_le a b then a else b)"

text \<open>
  \<^verbatim>\<open>minimax\<close> and the hard branch of \<^verbatim>\<open>bestMove\<close> write into the board they are given.
  The store holds that board together with the sequence of assignments
  \<^verbatim>\<open>board[row][col] = v\<close> made so far, as \<open>(row, col, v)\<close>, oldest first.
\<close>

record store =
  grid :: board
  writes :: "(nat \<times> nat \<times> cell) list"

definition assign :: "nat \<Rightarrow> nat \<Rightarrow> cell \<Rightarrow> store \<Rightarrow> store" where
  "assign row col v s =
     \<lparr>grid = set_cell (grid s) row col v, writes = writes s @ [(row, col, v)]\<rparr>"

definition fresh :: "board \<Rightarrow> store" where
  "fresh b = \<lparr>grid = b, writes = []\<rparr>"

text \<open>The cells in which a piece was placed (the writes that are not the undo).\<close>

definition placements :: "store \<Rightarrow> (nat \<times> nat) list" where
  "placements s = map (\<lambda>w. (fst w, fst (snd w))) (filter (\<lambda>w. snd (snd w) \<noteq> EMPTY) (writes s))"

text \<open>
  The inner loop \<^verbatim>\<open>for (let row = ROWS - 1; row >= 0; row--)\<close> of the maximizing layer for
  one column, over the rows still to visit. \<open>rec\<close> is the recursive call
  \<^verbatim>\<open>minimax(board, depth - 1, alpha, beta, false)\<close>; the accumulator is the store with the
  locals \<^verbatim>\<open>maxEval\<close> and \<^verbatim>\<open>alpha\<close>. The only \<^verbatim>\<open>break\<close> is the one under
  \<^verbatim>\<open>if (beta <= alpha)\<close>, and it leaves this inner loop.
\<close>

fun max_rows ::
  "(store \<Rightarrow> jsnum \<Rightarrow> jsnum \<Rightarrow> jsnum \<times> store) \<Rightarrow> nat \<Rightarrow> jsnum \<Rightarrow> nat list
     \<Rightarrow> store \<times> jsnum \<times> jsnum \<Rightarrow> store \<times> jsnum \<times> jsnum" where
  "max_rows rec col beta [] acc = acc"
| "max_rows rec col beta (row # rows) (s, maxEval, alpha) =
     (if cellAt (grid s) row col = EMPTY then
        (case rec (assign row col OPPONENT s) alpha beta of (eval, s') \<Rightarrow>
           let s'' = assign row col EMPTY s';
               maxEval' = js_max maxEval eval;
               alpha' = js_max alpha eval
           in if js_le beta alpha' then (s'', maxEval', alpha')
              else max_rows rec col beta rows (s'', maxEval', alpha'))
      else max_rows rec col beta rows (s, maxEval, alpha))"

text \<open>The same loop of the minimizing layer, with the locals \<^verbatim>\<open>minEval\<close> and \<^verbatim>\<open>beta\<close>.\<close>

fun min_rows ::
  "(store \<Rightarrow> jsnum \<Rightarrow> jsnum \<Rightarrow> jsnum \<times> store) \<Rightarrow> nat \<Rightarrow> jsnum \<Rightarrow> nat list
     \<Rightarrow> store \<times> jsnum \<times> jsnum \<Rightarrow> store \<times> jsnum \<times> jsnum" where
  "min_rows rec col alpha [] acc = acc"
| "min_rows rec col alpha (row # rows) (s, minEval, beta) =
     (if cellAt (grid s) row col = EMPTY then
        (case rec (assign row col PLAYER s) alpha beta of (eval, s') \<Rightarrow>
           let s'' = assign row col EMPTY s';
               minEval' = js_min minEval eval;
               beta' = js_min beta eval
           in if js_le beta' alpha then (s'', minEval', beta')
              else min_rows rec col alpha rows (s'', minEval', beta'))
      else min_rows rec col alpha rows (s, minEval, beta))"

text \<open>The rows in the order the loops visit them: \<^verbatim>\<open>ROWS - 1\<close> down to 0.\<close>

definition rows_down :: "nat list" where
  "rows_down = rev [0..<ROWS]"

text \<open>The outer loops \<^verbatim>\<open>for (let col = 0; col < COLS; col++)\<close> of the two layers.\<close>

definition max_layer ::
  "(store \<Rightarrow> jsnum \<Rightarrow> jsnum \<Rightarrow> jsnum \<times> store) \<Rightarrow> store \<Rightarrow> jsnum \<Rightarrow> jsnum \<Rightarrow> jsnum \<times> store" where
  "max_layer rec s alpha beta =
     (case foldl (\<lambda>acc col. max_rows rec col beta rows_down acc) (s, NegInf, alpha) [0..<COLS] of
        (s', maxEval, alpha') \<Rightarrow> (maxEval, s'))"

definition min_layer ::
  "(store \<Rightarrow> jsnum \<Rightarrow> jsnum \<Rightarrow> jsnum \<times> store) \<Rightarrow> store \<Rightarrow> jsnum \<Rightarrow> jsnum \<Rightarrow> jsnum \<times> store" where
  "min_layer rec s alpha beta =
     (case foldl (\<lambda>acc col. min_rows rec col alpha rows_down acc) (s, PosInf, beta) [0..<COLS] of
        (s', minEval, beta') \<Rightarrow> (minEval, s'))"

fun minimax :: "nat \<Rightarrow> store \<Rightarrow> jsnum \<Rightarrow> jsnum \<Rightarrow> bool \<Rightarrow> jsnum \<times> store" where
  "minimax depth s alpha beta isMaximizingPlayer =
     (if depth = 0 \<or> truthy (checkWin (grid s) PLAYER) \<or> truthy (checkWin (grid s) OPPONENT)
         \<or> isBoardFull (grid s)
      then (Fin (heuristic (grid s)), s)
      else if isMaximizingPlayer
      then max_layer (\<lambda>s' a b. minimax (depth - 1) s' a b False) s alpha beta
      else min_layer (\<lambda>s' a b. minimax (depth - 1) s' a b True) s alpha beta)"

declare minimax.simps [simp del]

text \<open>
  The recursive call of a layer as a function of the store and the two bounds it is given.
\<close>

definition minimax_call :: "nat \<Rightarrow> bool \<Rightarrow> store \<Rightarrow> jsnum \<Rightarrow> jsnum \<Rightarrow> jsnum \<times> store" where
  "minimax_call depth isMaximizingPlayer s alpha beta = minimax depth s alpha beta isMaximizingPlayer"

text \<open>
  The loop \<^verbatim>\<open>for (row = ROWS - 1; row >= 0; row--) if (board[row][col] === EMPTY) { ...; break; }\<close>
  of \<^verbatim>\<open>generateSuccessors\<close>, of the hard branch of \<^verbatim>\<open>bestMove\<close> and of \<^verbatim>\<open>placePiece\<close>
  runs its body at the first empty cell from the bottom and stops: this is the row it finds.
\<close>

definition lowestEmptyRow :: "board \<Rightarrow> nat \<Rightarrow> nat option" where
  "lowestEmptyRow b col = find (\<lambda>row. cellAt b row col = EMPTY) rows_down"

text \<open>
  One pass of the column loop of the hard branch of \<^verbatim>\<open>bestMove\<close>, with the locals
  \<^verbatim>\<open>bestScore\<close> and \<^verbatim>\<open>move\<close>.
\<close>

definition hard_step :: "store \<times> jsnum \<times> int \<Rightarrow> nat \<Rightarrow> store \<times> jsnum \<times> int" where
  "hard_step acc col =
     (case acc of (s, bestScore, move) \<Rightarrow>
        (case lowestEmptyRow (grid s) col of
           None \<Rightarrow> (s, bestScore, move)
         | Some row \<Rightarrow>
             (case minimax MAX_DEPTH (assign row col OPPONENT s) NegInf PosInf False of
                (score, s') \<Rightarrow>
                  let s'' = assign row col EMPTY s'
                  in if js_gt score bestScore then (s'', score, int col)
                     else (s'', bestScore, move))))"

definition bestMove_hard :: "store \<Rightarrow> int \<times> store" where
  "bestMove_hard s =
     (case foldl hard_step (s, NegInf, - 1) [0..<COLS] of (s', bestScore, move) \<Rightarrow> (move, s'))"


section \<open>Easy mode: the search of aStarSearch\<close>

text \<open>
  What a call of the program can end in: an exception, a value, or (for the \<^verbatim>\<open>while\<close>
  loop of \<^verbatim>\<open>aStarSearch\<close>, which has no bound of its own) no answer within the number of
  iterations allowed.
\<close>

datatype error = ReferenceError

datatype 'a outcome = Throws error | OutOfFuel | Returns 'a

text \<open>
  \<^verbatim>\<open>aStarSearch\<close> calls \<^verbatim>\<open>heuristicEasy(board)\<close>. The program declares no function,
  variable or parameter of that name, so the identifier is resolved in the global scope
  when the call is evaluated. An environment says what it is bound to there: \<open>None\<close> when
  it is unbound, which is the case in the program as it stands and makes the call throw a
  \<^verbatim>\<open>ReferenceError\<close>.
\<close>

type_synonym genv = "(board \<Rightarrow> int) option"

definition program_env :: genv where
  "program_env = None"

definition heuristicEasy :: "genv \<Rightarrow> board \<Rightarrow> error + int" where
  "heuristicEasy env b = (case env of None \<Rightarrow> Inl ReferenceError | Some fn \<Rightarrow> Inr (fn b))"

text \<open>
  The nodes of the search. The start node has the fields \<^verbatim>\<open>board, move, g, h, f\<close>; a
  successor has \<^verbatim>\<open>board, move\<close> from \<^verbatim>\<open>generateSuccessors\<close> and then \<^verbatim>\<open>g\<close> and \<^verbatim>\<open>f\<close>,
  and no \<^verbatim>\<open>h\<close>. \<^verbatim>\<open>move\<close> is \<^verbatim>\<open>null\<close> (\<open>None\<close>) in the start node.

  \<open>n_path\<close> is not a field of the program's nodes. It records the columns played from the
  start node's board to reach this node, in order, extended where the program sets
  \<^verbatim>\<open>successor.g = currentNode.g + 1\<close>; nothing in the search reads it.
\<close>

record node =
  n_board :: board
  n_move :: "nat option"
  n_g :: int
  n_h :: "int option"
  n_f :: int
  n_path :: "nat list"

text \<open>The objects \<^verbatim>\<open>{ board: newBoard, move: col }\<close>, in ascending column order.\<close>

definition generateSuccessors :: "board \<Rightarrow> cell \<Rightarrow> (board \<times> nat) list" where
  "generateSuccessors b player =
     concat (map (\<lambda>col. case lowestEmptyRow b col of
                           None \<Rightarrow> []
                         | Some row \<Rightarrow> [(set_cell b row col player, col)])
                 [0..<COLS])"

text \<open>
  The loop \<^verbatim>\<open>for (let successor of successors)\<close>: it returns the open list. Boards are
  compared through \<^verbatim>\<open>JSON.stringify\<close>, that is cell by cell.
\<close>

fun expand :: "node \<Rightarrow> node list \<Rightarrow> node list \<Rightarrow> (board \<times> nat) list \<Rightarrow> node list" where
  "expand currentNode closedList openList [] = openList"
| "expand currentNode closedList openList ((b, col) # successors) =
     (if list_ex (\<lambda>n. n_board n = b) closedList
      then expand currentNode closedList openList successors
      else (case find (\<lambda>n. n_board n = b) openList of
              None \<Rightarrow>
                expand currentNode closedList
                  (openList @ [\<lparr>n_board = b, n_move = Some col, n_g = n_g currentNode + 1,
                                n_h = None, n_f = n_g currentNode + 1,
                                n_path = n_path currentNode @ [col]\<rparr>])
                  successors
            | Some existingNode \<Rightarrow>
                if n_g currentNode + 1 < n_f existingNode
                then expand currentNode closedList
                       (openList @ [\<lparr>n_board = b, n_move = Some col, n_g = n_g currentNode + 1,
                                     n_h = None, n_f = n_g currentNode + 1,
                                     n_path = n_path currentNode @ [col]\<rparr>])
                       successors
                else expand currentNode closedList openList successors))"

text \<open>
  The loop \<^verbatim>\<open>while (openList.length > 0)\<close>, run for at most \<open>fuel\<close> iterations: \<open>None\<close>
  when they do not suffice, \<open>Some None\<close> when the loop ends and \<^verbatim>\<open>null\<close> is returned,
  \<open>Some (Some n)\<close> when node \<open>n\<close> is returned. \<^verbatim>\<open>Array.prototype.sort\<close> is stable, as
  \<open>sort_key\<close> is; a sorted non-empty list is not empty, so the first case of the
  \<^verbatim>\<open>shift\<close> is never taken.
\<close>

fun aStarLoop :: "nat \<Rightarrow> cell \<Rightarrow> node list \<Rightarrow> node list \<Rightarrow> node option option" where
  "aStarLoop fuel player [] closedList = Some None"
| "aStarLoop 0 player (n # ns) closedList = None"
| "aStarLoop (Suc fuel) player (n # ns) closedList =
     (case sort_key n_f (n # ns) of
        [] \<Rightarrow> Some None
      | currentNode # openList \<Rightarrow>
          if truthy (checkWin (n_board currentNode) OPPONENT) then Some (Some currentNode)
          else aStarLoop fuel player
                 (expand currentNode (closedList @ [currentNode]) openList
                    (generateSuccessors (n_board currentNode) player))
                 (closedList @ [currentNode]))"

definition startNode :: "board \<Rightarrow> int \<Rightarrow> node" where
  "startNode b hv =
     \<lparr>n_board = b, n_move = None, n_g = 0, n_h = Some hv, n_f = 0 + hv, n_path = []\<rparr>"

definition aStarSearch :: "genv \<Rightarrow> nat \<Rightarrow> board \<Rightarrow> cell \<Rightarrow> node option outcome" where
  "aStarSearch env fuel b player =
     (case heuristicEasy env b of
        Inl e \<Rightarrow> Throws e
      | Inr hv \<Rightarrow>
          (case aStarLoop fuel player [startNode b hv] [] of
             None \<Rightarrow> OutOfFuel
           | Some r \<Rightarrow> Returns r))"

section \<open>bestMove, placePiece and a turn of playGame\<close>

text \<open>
  A column as the program passes it around: an integer, or a value that is no index of a
  row (\<open>None\<close>): \<^verbatim>\<open>null\<close> from the start node's \<^verbatim>\<open>move\<close>, \<^verbatim>\<open>NaN\<close> from \<^verbatim>\<open>parseInt\<close>.

  \<open>rnd\<close> is the value of \<^verbatim>\<open>Math.floor(Math.random() * COLS)\<close> at this call, one of
  \<open>0, \<dots>, COLS - 1\<close>. \<open>difficulty\<close> is the second argument, \<open>None\<close> when it is not passed
  (\<^verbatim>\<open>undefined\<close>); everything but the string \<^verbatim>\<open>'easy'\<close> takes the \<^verbatim>\<open>else\<close> branch.
\<close>

definition bestMove ::
  "genv \<Rightarrow> nat \<Rightarrow> nat \<Rightarrow> store \<Rightarrow> string option \<Rightarrow> int option outcome \<times> store" where
  "bestMove env fuel rnd s difficulty =
     (if difficulty = Some ''easy'' then
        (case aStarSearch env fuel (grid s) OPPONENT of
           Throws e \<Rightarrow> (Throws e, s)
         | OutOfFuel \<Rightarrow> (OutOfFuel, s)
         | Returns None \<Rightarrow> (Returns (Some (int rnd)), s)
         | Returns (Some result) \<Rightarrow> (Returns (map_option int (n_move result)), s))
      else (case bestMove_hard s of (move, s') \<Rightarrow> (Returns (Some move), s')))"

text \<open>
  \<^verbatim>\<open>placePiece\<close> on the global board. For a column that is no index of the rows,
  \<^verbatim>\<open>board[row][col]\<close> is \<^verbatim>\<open>undefined\<close>, never \<^verbatim>\<open>=== EMPTY\<close>, and no cell is written. The
  function has no \<^verbatim>\<open>throw\<close> and no assertion.
\<close>

definition placePiece :: "int option \<Rightarrow> cell \<Rightarrow> board \<Rightarrow> board" where
  "placePiece col player b =
     (case col of
        None \<Rightarrow> b
      | Some c \<Rightarrow>
          if 0 \<le> c \<and> c < int COLS then
            (case lowestEmptyRow b (nat c) of
               None \<Rightarrow> b
             | Some row \<Rightarrow> set_cell b row (nat c) player)
          else b)"

text \<open>
  What one run of the callback of \<^verbatim>\<open>playGame\<close> ends in, named after what it prints, with
  the board it leaves; \<open>NextTurn\<close> and \<open>InvalidColumn\<close> are the two calls of \<^verbatim>\<open>playGame()\<close>
  that prompt again.
\<close>

datatype status = PlayerWins | Draw | OpponentWins | NextTurn | InvalidColumn

text \<open>
  The callback for the parsed input \<open>column\<close>. It calls \<^verbatim>\<open>bestMove(board)\<close> with one
  argument.
\<close>

definition playGame :: "genv \<Rightarrow> nat \<Rightarrow> nat \<Rightarrow> board \<Rightarrow> int option \<Rightarrow> (status \<times> board) outcome" where
  "playGame env fuel rnd b column =
     (case column of
        None \<Rightarrow> Returns (InvalidColumn, b)
      | Some c \<Rightarrow>
          if c \<ge> 0 \<and> c < int COLS then
            (case placePiece column PLAYER b of b1 \<Rightarrow>
               if checkWin b1 PLAYER = Some PLAYER then Returns (PlayerWins, b1)
               else if isBoardFull b1 then Returns (Draw, b1)
               else (case bestMove env fuel rnd (fresh b1) None of
                       (Throws e, s) \<Rightarrow> Throws e
                     | (OutOfFuel, s) \<Rightarrow> OutOfFuel
                     | (Returns move, s) \<Rightarrow>
                         (case placePiece move OPPONENT (grid s) of b2 \<Rightarrow>
                            if checkWin b2 OPPONENT = Some OPPONENT then Returns (OpponentWins, b2)
                            else if isBoardFull b2 then Returns (Draw, b2)
                            else Returns (NextTurn, b2))))
          else Returns (InvalidColumn, b))"


section \<open>Notions used in the statements\<close>

text \<open>A recursive call that hands the board back as it received it.\<close>

definition keeps_grid :: "(store \<Rightarrow> jsnum \<Rightarrow> jsnum \<Rightarrow> jsnum \<times> store) \<Rightarrow> bool" where
  "keeps_grid rec \<longleftrightarrow> (\<forall>s a b. grid (snd (rec s a b)) = grid s)"

text \<open>
  The placements of a sequence of writes that are made above an empty cell: the writes are
  replayed on the board they started from, and a piece written to \<open>(row, col)\<close> while
  \<open>(row + 1, col)\<close> is on the board and empty is reported.
\<close>

fun floating :: "board \<Rightarrow> (nat \<times> nat \<times> cell) list \<Rightarrow> (nat \<times> nat \<times> cell) list" where
  "floating b [] = []"
| "floating b ((row, col, v) # ws) =
     (if v \<noteq> EMPTY \<and> row + 1 < ROWS \<and> cellAt b (row + 1) col = EMPTY
      then (row, col, v) # floating (set_cell b row col v) ws
      else floating (set_cell b row col v) ws)"

text \<open>The board after \<open>player\<close> drops a piece in each column of \<open>path\<close>, in order.\<close>

definition play :: "board \<Rightarrow> cell \<Rightarrow> nat list \<Rightarrow> board" where
  "play b player path = foldl (\<lambda>b' col. placePiece (Some (int col)) player b') b path"

text \<open>
  A node whose \<^verbatim>\<open>move\<close> is the last column of its path (\<^verbatim>\<open>null\<close> for the empty path) and
  whose board is the start board after the drops of its path.
\<close>

definition records_last_ply :: "board \<Rightarrow> cell \<Rightarrow> node \<Rightarrow> bool" where
  "records_last_ply b0 player n \<longleftrightarrow>
     n_move n = (if n_path n = [] then None else Some (last (n_path n))) \<and>
     n_board n = play b0 player (n_path n)"

text \<open>A score that is a number other than the two infinities.\<close>

definition is_fin :: "jsnum \<Rightarrow> bool" where
  "is_fin x \<longleftrightarrow> (case x of Fin v \<Rightarrow> True | _ \<Rightarrow> False)"

text \<open>A recursive call that returns such a score on every board of 6 rows of 7 cells.\<close>

definition fin_on_boards :: "(store \<Rightarrow> jsnum \<Rightarrow> jsnum \<Rightarrow> jsnum \<times> store) \<Rightarrow> bool" where
  "fin_on_boards rec \<longleftrightarrow> (\<forall>s a b. wf_board (grid s) \<longrightarrow> is_fin (fst (rec s a b)))"

text \<open>
  What holds of the locals of the hard branch of \<^verbatim>\<open>bestMove\<close> after the columns \<open>tried\<close>,
  on board \<open>b\<close>: the board is \<open>b\<close> again; as long as \<^verbatim>\<open>bestScore\<close> is \<^verbatim>\<open>-Infinity\<close> no
  column tried had an empty cell and \<^verbatim>\<open>move\<close> is \<open>-1\<close>; afterwards \<^verbatim>\<open>move\<close> is one of the
  columns tried and has an empty cell.
\<close>

definition hard_inv :: "board \<Rightarrow> nat list \<Rightarrow> store \<times> jsnum \<times> int \<Rightarrow> bool" where
  "hard_inv b tried acc \<longleftrightarrow>
     (case acc of (s, bestScore, move) \<Rightarrow>
        grid s = b \<and>
        (if bestScore = NegInf
         then move = - 1 \<and> list_all (\<lambda>c. lowestEmptyRow b c = None) tried
         else is_fin bestScore \<and> 0 \<le> move \<and> nat move \<in> set tried
              \<and> lowestEmptyRow b (nat move) \<noteq> None))"

text \<open>
  A board on which the game is still on when \<^verbatim>\<open>playGame\<close> prompts: 6 rows of 7 cells, no
  line of four of the Player, top row not full.
\<close>

definition in_play :: "board \<Rightarrow> bool" where
  "in_play b \<longleftrightarrow> wf_board b \<and> checkWin b PLAYER \<noteq> Some PLAYER \<and> \<not> isBoardFull b"

text \<open>A column without an empty cell.\<close>

definition column_full :: "board \<Rightarrow> nat \<Rightarrow> bool" where
  "column_full b col \<longleftrightarrow> list_all (\<lambda>row. cellAt b row col \<noteq> EMPTY) [0..<ROWS]"

text \<open>
  The rest of the callback of \<^verbatim>\<open>playGame\<close> from \<^verbatim>\<open>const move = bestMove(board)\<close> on, run
  on board \<open>b\<close>: the Opponent's move is computed and dropped, then the two tests.
\<close>

definition opponent_turn :: "board \<Rightarrow> (status \<times> board) outcome" where
  "opponent_turn b =
     (let b2 = placePiece (Some (fst (bestMove_hard (fresh b)))) OPPONENT b
      in Returns (if checkWin b2 OPPONENT = Some OPPONENT then OpponentWins
                  else if isBoardFull b2 then Draw else NextTurn, b2))"

subsection \<open>Positions\<close>

text \<open>
  A position late in a game: three empty cells, \<open>(0, 0)\<close> and \<open>(1, 0)\<close> in column 0 and
  \<open>(0, 1)\<close> in column 1, no line of four for either side.
\<close>

definition late_board :: board where
  "late_board =
     [[EMPTY,    EMPTY,    PLAYER,   PLAYER,   OPPONENT, OPPONENT, PLAYER],
      [EMPTY,    PLAYER,   OPPONENT, OPPONENT, PLAYER,   PLAYER,   OPPONENT],
      [OPPONENT, OPPONENT, PLAYER,   PLAYER,   OPPONENT, OPPONENT, PLAYER],
      [PLAYER,   PLAYER,   OPPONENT, OPPONENT, PLAYER,   PLAYER,   OPPONENT],
      [OPPONENT, OPPONENT, PLAYER,   PLAYER,   OPPONENT, OPPONENT, PLAYER],
      [PLAYER,   PLAYER,   OPPONENT, OPPONENT, PLAYER,   PLAYER,   OPPONENT]]"

text \<open>A position early in a game: the Opponent has two in the bottom row, the Player too.\<close>

definition early_board :: board where
  "early_board =
     [[EMPTY, EMPTY, EMPTY,    EMPTY,    EMPTY,  EMPTY,  EMPTY],
      [EMPTY, EMPTY, EMPTY,    EMPTY,    EMPTY,  EMPTY,  EMPTY],
      [EMPTY, EMPTY, EMPTY,    EMPTY,    EMPTY,  EMPTY,  EMPTY],
      [EMPTY, EMPTY, EMPTY,    EMPTY,    EMPTY,  EMPTY,  EMPTY],
      [EMPTY, EMPTY, EMPTY,    EMPTY,    EMPTY,  EMPTY,  EMPTY],
      [EMPTY, EMPTY, OPPONENT, OPPONENT, PLAYER, PLAYER, EMPTY]]"

section \<open>Evaluating the search\<close>

text \<open>
  The equation of \<^const>\<open>minimax\<close> with the recursive calls named, so that they are
  unfolded only where a layer makes them.
\<close>

lemma minimax_code [code]:
  "minimax depth s alpha beta isMaximizingPlayer =
     (if depth = 0 \<or> truthy (checkWin (grid s) PLAYER) \<or> truthy (checkWin (grid s) OPPONENT)
         \<or> isBoardFull (grid s)
      then (Fin (heuristic (grid s)), s)
      else if isMaximizingPlayer
      then max_layer (minimax_call (depth - 1) False) s alpha beta
      else min_layer (minimax_call (depth - 1) True) s alpha beta)"
proof -
  have "minimax_call (depth - 1) m = (\<lambda>s' a b. minimax (depth - 1) s' a b m)" for m
    by (intro ext) (simp add: minimax_call_def)
  then show ?thesis by (subst minimax.simps) simp
qed


section \<open>The evaluator\<close>

subsection \<open>Windows that leave the board\<close>

lemma count_step_sum:
  "(case count_step b row col player d (cp, co, e) i of (cp', co', e') \<Rightarrow> cp' + co' + e')
     = cp + co + e + (if in_bounds (row + i * fst d) (col + i * snd d) then 1 else 0)"
  by (simp add: count_step_def in_bounds_def Let_def)

lemma foldl_count_sum:
  "(case foldl (count_step b row col player d) acc is of (cp', co', e') \<Rightarrow> cp' + co' + e')
     = (case acc of (cp, co, e) \<Rightarrow> cp + co + e)
       + length (filter (\<lambda>i. in_bounds (row + i * fst d) (col + i * snd d)) is)"
proof (induction "is" arbitrary: acc)
  case Nil
  then show ?case by simp
next
  case (Cons i "is")
  obtain cp co e where acc: "acc = (cp, co, e)" by (cases acc) auto
  obtain cp' co' e' where st: "count_step b row col player d (cp, co, e) i = (cp', co', e')"
    by (cases "count_step b row col player d (cp, co, e) i") auto
  from count_step_sum[of b row col player d cp co e i] st
  have "cp' + co' + e' = cp + co + e + (if in_bounds (row + i * fst d) (col + i * snd d) then 1 else 0)"
    by simp
  then show ?case using Cons.IH[of "(cp', co', e')"] acc st by simp
qed

lemma window_delta_small:
  "cp + co + e < 4 \<Longrightarrow> window_delta (cp, co, e) = 0"
  by (simp add: window_delta_def)


lemma evaluateLine_windows:
  "evaluateLine b row col player =
     window_delta (window_counts b row col player (0, 1))
     + window_delta (window_counts b row col player (1, 0))
     + window_delta (window_counts b row col player (1, 1))
     + window_delta (window_counts b row col player (1, - 1))"
  by (simp add: evaluateLine_def directions_def)

text \<open>
  Claim C8. \<^const>\<open>evaluateLine\<close> adds, for each of its four directions, the delta of the
  window of four cells that starts at \<open>(row, col)\<close>. When one of the four cells of a window
  is off the board, that delta is 0, whatever the board, the cell and the side: the counters
  only count cells on the board, and every scoring case needs four of them.
\<close>

theorem clipped_window_scores_zero:
  assumes "i \<in> {0, 1, 2, 3}" and "\<not> in_bounds (row + i * dRow) (col + i * dCol)"
  shows "window_delta (window_counts b row col player (dRow, dCol)) = 0"
proof -
  let ?p = "\<lambda>i. in_bounds (row + i * dRow) (col + i * dCol)"
  obtain cp co e where wc: "window_counts b row col player (dRow, dCol) = (cp, co, e)"
    by (cases "window_counts b row col player (dRow, dCol)") auto
  have "cp + co + e = length (filter ?p [0, 1, 2, 3])"
    using foldl_count_sum[of b row col player "(dRow, dCol)" "(0, 0, 0)" "[0, 1, 2, 3]"] wc
    by (simp add: window_counts_def)
  moreover have "length (filter ?p [0, 1, 2, 3]) < 4"
    using assms by auto
  ultimately show ?thesis using wc window_delta_small by simp
qed

text \<open>
  The horizontal window of the Player piece at \<open>(5, 4)\<close> of \<^const>\<open>early_board\<close>: it holds
  the Player pieces at \<open>(5, 4)\<close> and \<open>(5, 5)\<close> and the empty cell \<open>(5, 6)\<close>, and its fourth
  cell, \<open>(5, 7)\<close>, is off the board.
\<close>

theorem clipped_window_scores_zero_witness:
  "(3::int) \<in> {0, 1, 2, 3} \<and> \<not> in_bounds (5 + 3 * 0) (4 + 3 * 1)
   \<and> window_delta (window_counts early_board 5 4 PLAYER (0, 1)) = 0"
  using clipped_window_scores_zero[of 3 5 0 4 1 early_board PLAYER]
  by (simp add: in_bounds_def)

subsection \<open>Exchanging the sides\<close>

lemma heuristic_cell_shift: "heuristic_cell b row col s = s + heuristic_cell b row col 0"
  by (simp add: heuristic_cell_def)

lemma foldl_cols_sum:
  "foldl (\<lambda>score col. heuristic_cell b row col score) s cols
     = s + sum_list (map (\<lambda>col. heuristic_cell b row col 0) cols)"
proof (induction cols arbitrary: s)
  case Nil
  then show ?case by simp
next
  case (Cons c cols)
  show ?case
    using Cons.IH[of "heuristic_cell b row c s"] heuristic_cell_shift[of b row c s]
    by simp
qed

lemma foldl_rows_sum:
  "foldl (\<lambda>score row. foldl (\<lambda>score col. heuristic_cell b row col score) score cols) s rows
     = s + sum_list (map (\<lambda>row. sum_list (map (\<lambda>col. heuristic_cell b row col 0) cols)) rows)"
  by (induction rows arbitrary: s) (simp_all add: foldl_cols_sum)

lemma heuristic_sum:
  "heuristic b = (\<Sum>row\<leftarrow>[0..<ROWS]. \<Sum>col\<leftarrow>[0..<COLS]. heuristic_cell b row col 0)"
  unfolding heuristic_def by (simp only: foldl_rows_sum)

lemma cellAt_swap:
  assumes "wf_board b" "row < ROWS" "col < COLS"
  shows "cellAt (swap_board b) row col = swap_cell (cellAt b row col)"
proof -
  have "length (b ! row) = COLS"
    using assms by (simp add: wf_board_def list_all_length)
  then show ?thesis
    using assms by (simp add: cellAt_def swap_board_def wf_board_def)
qed

lemma swap_cell_eq_iff: "swap_cell x = swap_cell y \<longleftrightarrow> x = y"
  by (cases x; cases y) simp_all

lemma other_swap: "p \<noteq> EMPTY \<Longrightarrow> other (swap_cell p) = swap_cell (other p)"
  by (cases p) (simp_all add: other_def)

lemma count_step_swap:
  assumes "wf_board b" "p \<noteq> EMPTY"
  shows "count_step (swap_board b) row col (swap_cell p) d acc i = count_step b row col p d acc i"
proof (cases "in_bounds (row + i * fst d) (col + i * snd d)")
  case True
  then have lt: "nat (row + i * fst d) < ROWS" "nat (col + i * snd d) < COLS"
    by (auto simp: in_bounds_def)
  show ?thesis
    using True cellAt_swap[OF assms(1) lt] other_swap[OF assms(2)]
    by (cases acc) (simp add: count_step_def Let_def in_bounds_def swap_cell_eq_iff)
next
  case False
  then show ?thesis
    by (cases acc) (auto simp add: count_step_def Let_def in_bounds_def)
qed

lemma window_counts_swap:
  assumes "wf_board b" "p \<noteq> EMPTY"
  shows "window_counts (swap_board b) row col (swap_cell p) d = window_counts b row col p d"
  unfolding window_counts_def
  using count_step_swap[OF assms] by (simp cong: foldl_cong)

lemma evaluateLine_swap:
  assumes "wf_board b" "p \<noteq> EMPTY"
  shows "evaluateLine (swap_board b) row col (swap_cell p) = evaluateLine b row col p"
  unfolding evaluateLine_def by (simp add: window_counts_swap[OF assms])

lemma heuristic_cell_swap:
  assumes "wf_board b" "row < ROWS" "col < COLS"
  shows "heuristic_cell (swap_board b) row col 0 = - heuristic_cell b row col 0"
proof (cases "cellAt b row col")
  case EMPTY
  then show ?thesis using cellAt_swap[OF assms] by (simp add: heuristic_cell_def)
next
  case PLAYER
  then show ?thesis
    using cellAt_swap[OF assms] evaluateLine_swap[OF assms(1), of PLAYER "int row" "int col"]
    by (simp add: heuristic_cell_def)
next
  case OPPONENT
  then show ?thesis
    using cellAt_swap[OF assms] evaluateLine_swap[OF assms(1), of OPPONENT "int row" "int col"]
    by (simp add: heuristic_cell_def)
qed

lemma sum_list_neg_cong:
  "(\<And>x. x \<in> set xs \<Longrightarrow> f x = - g x) \<Longrightarrow> sum_list (map f xs) = - sum_list (map g xs :: int list)"
  by (induction xs) simp_all


text \<open>
  Claim C9. On every board of 6 rows of 7 cells, exchanging the Player's and the Opponent's
  pieces negates the score of \<^const>\<open>heuristic\<close>.
\<close>

theorem heuristic_antisymmetric:
  assumes "wf_board b"
  shows "heuristic (swap_board b) = - heuristic b"
proof -
  have "\<And>row. row \<in> set [0..<ROWS] \<Longrightarrow>
          (\<Sum>col\<leftarrow>[0..<COLS]. heuristic_cell (swap_board b) row col 0)
          = - (\<Sum>col\<leftarrow>[0..<COLS]. heuristic_cell b row col 0)"
    by (rule sum_list_neg_cong) (simp add: heuristic_cell_swap[OF assms])
  then show ?thesis
    unfolding heuristic_sum by (rule sum_list_neg_cong)
qed

lemma centre_piece_wf: "wf_board (set_cell empty_board 2 3 OPPONENT)"
  by code_simp

lemma centre_piece_score: "heuristic (set_cell empty_board 2 3 OPPONENT) = 20"
  by code_simp

text \<open>
  The empty board with one Opponent piece at \<open>(2, 3)\<close>: all four windows of the piece are on
  the board, the score is 20, and the score of the board with the sides exchanged is -20.
\<close>

theorem heuristic_antisymmetric_witness:
  "wf_board (set_cell empty_board 2 3 OPPONENT)
   \<and> heuristic (swap_board (set_cell empty_board 2 3 OPPONENT))
       = - heuristic (set_cell empty_board 2 3 OPPONENT)
   \<and> heuristic (swap_board (set_cell empty_board 2 3 OPPONENT)) = - 20"
  using heuristic_antisymmetric[OF centre_piece_wf] centre_piece_wf centre_piece_score
  by simp

section \<open>The board after the hard search\<close>

lemma set_cell_undo:
  assumes "cellAt b row col = EMPTY"
  shows "set_cell (set_cell b row col v) row col EMPTY = b"
proof (cases "row < length b")
  case True
  have "(b ! row)[col := EMPTY] = b ! row"
    using assms by (metis cellAt_def list_update_id)
  then show ?thesis using True by (simp add: set_cell_def)
next
  case False
  then show ?thesis by (simp add: set_cell_def list_update_beyond)
qed

lemma grid_assign [simp]: "grid (assign row col v s) = set_cell (grid s) row col v"
  by (simp add: assign_def)

lemma max_rows_grid:
  assumes "keeps_grid rec"
  shows "grid (fst (max_rows rec col beta rows (s, maxEval, alpha))) = grid s"
proof (induction rows arbitrary: s maxEval alpha)
  case Nil
  then show ?case by simp
next
  case (Cons row rows)
  show ?case
  proof (cases "cellAt (grid s) row col = EMPTY")
    case False
    then show ?thesis using Cons.IH by simp
  next
    case True
    obtain ev s' where r: "rec (assign row col OPPONENT s) alpha beta = (ev, s')"
      by (cases "rec (assign row col OPPONENT s) alpha beta") auto
    have "grid s' = set_cell (grid s) row col OPPONENT"
      using assms r unfolding keeps_grid_def by (metis grid_assign snd_conv)
    then have restored: "grid (assign row col EMPTY s') = grid s"
      using True by (simp add: set_cell_undo)
    show ?thesis
      using True r restored Cons.IH[of "assign row col EMPTY s'"]
      by (simp add: Let_def)
  qed
qed

lemma min_rows_grid:
  assumes "keeps_grid rec"
  shows "grid (fst (min_rows rec col alpha rows (s, minEval, beta))) = grid s"
proof (induction rows arbitrary: s minEval beta)
  case Nil
  then show ?case by simp
next
  case (Cons row rows)
  show ?case
  proof (cases "cellAt (grid s) row col = EMPTY")
    case False
    then show ?thesis using Cons.IH by simp
  next
    case True
    obtain ev s' where r: "rec (assign row col PLAYER s) alpha beta = (ev, s')"
      by (cases "rec (assign row col PLAYER s) alpha beta") auto
    have "grid s' = set_cell (grid s) row col PLAYER"
      using assms r unfolding keeps_grid_def by (metis grid_assign snd_conv)
    then have restored: "grid (assign row col EMPTY s') = grid s"
      using True by (simp add: set_cell_undo)
    show ?thesis
      using True r restored Cons.IH[of "assign row col EMPTY s'"]
      by (simp add: Let_def)
  qed
qed

lemma foldl_grid:
  assumes "\<And>acc col. grid (fst (step acc col)) = grid (fst acc)"
  shows "grid (fst (foldl step acc cols)) = grid (fst acc)"
  by (induction cols arbitrary: acc) (simp_all add: assms)

lemma max_layer_grid:
  assumes "keeps_grid rec"
  shows "grid (snd (max_layer rec s alpha beta)) = grid s"
proof -
  have "grid (fst (foldl (\<lambda>acc col. max_rows rec col beta rows_down acc) (s, NegInf, alpha) [0..<COLS]))
          = grid (fst (s, NegInf, alpha))"
  proof (rule foldl_grid)
    fix acc :: "store \<times> jsnum \<times> jsnum" and col
    show "grid (fst (max_rows rec col beta rows_down acc)) = grid (fst acc)"
      using max_rows_grid[OF assms] by (cases acc) simp
  qed
  then show ?thesis
    by (simp add: max_layer_def case_prod_beta)
qed

lemma min_layer_grid:
  assumes "keeps_grid rec"
  shows "grid (snd (min_layer rec s alpha beta)) = grid s"
proof -
  have "grid (fst (foldl (\<lambda>acc col. min_rows rec col alpha rows_down acc) (s, PosInf, beta) [0..<COLS]))
          = grid (fst (s, PosInf, beta))"
  proof (rule foldl_grid)
    fix acc :: "store \<times> jsnum \<times> jsnum" and col
    show "grid (fst (min_rows rec col alpha rows_down acc)) = grid (fst acc)"
      using min_rows_grid[OF assms] by (cases acc) simp
  qed
  then show ?thesis
    by (simp add: min_layer_def case_prod_beta)
qed

lemma minimax_grid: "grid (snd (minimax depth s alpha beta m)) = grid s"
proof (induction depth arbitrary: s alpha beta m)
  case 0
  then show ?case by (simp add: minimax.simps)
next
  case (Suc d)
  have k: "keeps_grid (\<lambda>s' a b. minimax d s' a b m')" for m'
    unfolding keeps_grid_def using Suc.IH by simp
  show ?case
    by (subst minimax.simps) (simp add: max_layer_grid[OF k] min_layer_grid[OF k])
qed

lemma hard_step_grid: "grid (fst (hard_step acc col)) = grid (fst acc)"
proof -
  obtain s bestScore move where acc: "acc = (s, bestScore, move)" by (cases acc) auto
  show ?thesis
  proof (cases "lowestEmptyRow (grid s) col")
    case None
    then show ?thesis by (simp add: acc hard_step_def)
  next
    case (Some row)
    then have e: "cellAt (grid s) row col = EMPTY"
      by (auto simp: lowestEmptyRow_def find_Some_iff)
    obtain score s' where r: "minimax MAX_DEPTH (assign row col OPPONENT s) NegInf PosInf False = (score, s')"
      by (cases "minimax MAX_DEPTH (assign row col OPPONENT s) NegInf PosInf False") auto
    have "grid s' = set_cell (grid s) row col OPPONENT"
      using minimax_grid[of MAX_DEPTH "assign row col OPPONENT s" NegInf PosInf False] r by simp
    then have "grid (assign row col EMPTY s') = grid s"
      using e by (simp add: set_cell_undo)
    then show ?thesis
      using Some r by (simp add: acc hard_step_def Let_def)
  qed
qed

lemma bestMove_hard_grid: "grid (snd (bestMove_hard s)) = grid s"
proof -
  have "grid (fst (foldl hard_step (s, NegInf, - 1) [0..<COLS])) = grid (fst (s, NegInf, - 1 :: int))"
    by (rule foldl_grid) (rule hard_step_grid)
  then show ?thesis by (simp add: bestMove_hard_def case_prod_beta)
qed

lemma bestMove_grid: "grid (snd (bestMove env fuel rnd s difficulty)) = grid s"
  by (simp add: bestMove_def bestMove_hard_grid case_prod_beta split: outcome.splits option.splits)


text \<open>
  Claim C5. For every board of 6 rows of 7 cells, every depth, every pair of bounds and both
  layers, the board is cell for cell the same after \<^const>\<open>minimax\<close> returns as it was
  before the call, and so it is after the hard branch of \<^const>\<open>bestMove\<close> (every
  \<open>difficulty\<close> but \<^verbatim>\<open>'easy'\<close>; the easy branch works on copies). The bounds are
  arbitrary, so the executions that take the \<^verbatim>\<open>break\<close> under \<^verbatim>\<open>beta <= alpha\<close> are included:
  the undo is written before the test.
\<close>

theorem hard_search_restores_board:
  assumes "wf_board (grid s)"
  shows "grid (snd (minimax depth s alpha beta isMaximizingPlayer)) = grid s
         \<and> grid (snd (bestMove_hard s)) = grid s
         \<and> grid (snd (bestMove env fuel rnd s difficulty)) = grid s"
  by (simp add: minimax_grid bestMove_hard_grid bestMove_grid)

theorem hard_search_restores_board_witness:
  "wf_board (grid (fresh late_board))
   \<and> grid (snd (minimax 4 (fresh late_board) (Fin 0) (Fin 0) False)) = grid (fresh late_board)
   \<and> grid (snd (bestMove_hard (fresh late_board))) = grid (fresh late_board)
   \<and> grid (snd (bestMove program_env 0 0 (fresh late_board) None)) = grid (fresh late_board)"
  using hard_search_restores_board[of "fresh late_board" 4 "Fin 0" "Fin 0" False program_env 0 0 None]
  by (simp add: wf_board_def late_board_def fresh_def)

section \<open>The column the hard branch answers with\<close>

text \<open>
  On a board of 6 rows of 7 cells \<^const>\<open>minimax\<close> always returns a number: a layer is only
  entered when the top row has an empty cell, so its loops evaluate at least one move and
  \<^verbatim>\<open>maxEval\<close> (\<^verbatim>\<open>minEval\<close>) leaves its initial infinity. Hence in \<^verbatim>\<open>bestMove\<close> the first
  column with an empty cell already beats \<^verbatim>\<open>bestScore = -Infinity\<close>, and \<^verbatim>\<open>move\<close> is from
  then on a column in which an empty cell was found.
\<close>

lemma column_full_lowest:
  "column_full b col \<longleftrightarrow> lowestEmptyRow b col = None"
  by (auto simp: column_full_def lowestEmptyRow_def rows_down_def find_None_iff list_all_iff)

lemma wf_set_cell:
  assumes "wf_board b"
  shows "wf_board (set_cell b row col v)"
proof (cases "row < length b")
  case True
  then show ?thesis
    using assms by (auto simp: wf_board_def set_cell_def list_all_length nth_list_update)
next
  case False
  then show ?thesis
    using assms by (simp add: set_cell_def list_update_beyond)
qed

lemma js_max_fin: "m \<noteq> PosInf \<Longrightarrow> is_fin (js_max m (Fin v))"
  by (cases m) (simp_all add: js_max_def is_fin_def)

lemma js_min_fin: "m \<noteq> NegInf \<Longrightarrow> is_fin (js_min m (Fin v))"
  by (cases m) (simp_all add: js_min_def is_fin_def)

lemma is_fin_D: "is_fin x \<Longrightarrow> \<exists>v. x = Fin v"
  by (cases x) (simp_all add: is_fin_def)

lemma is_fin_not_inf: "is_fin x \<Longrightarrow> x \<noteq> PosInf \<and> x \<noteq> NegInf"
  by (cases x) (simp_all add: is_fin_def)

lemma max_rows_fin:
  assumes "keeps_grid rec" "fin_on_boards rec"
  shows "wf_board (grid s) \<Longrightarrow> maxEval \<noteq> PosInf \<Longrightarrow>
         (case max_rows rec col beta rows (s, maxEval, alpha) of (s', m', a') \<Rightarrow>
            m' \<noteq> PosInf \<and>
            (is_fin maxEval \<or> (\<exists>row \<in> set rows. cellAt (grid s) row col = EMPTY) \<longrightarrow> is_fin m'))"
proof (induction rows arbitrary: s maxEval alpha)
  case Nil
  then show ?case by simp
next
  case (Cons row rows)
  show ?case
  proof (cases "cellAt (grid s) row col = EMPTY")
    case False
    then show ?thesis using Cons.IH[OF Cons.prems] by auto
  next
    case True
    obtain ev s' where r: "rec (assign row col OPPONENT s) alpha beta = (ev, s')"
      by (cases "rec (assign row col OPPONENT s) alpha beta") auto
    have wf1: "wf_board (grid (assign row col OPPONENT s))"
      using Cons.prems(1) by (simp add: wf_set_cell)
    then have "is_fin ev"
      using assms(2) r unfolding fin_on_boards_def by (metis fst_conv)
    then obtain v where ev: "ev = Fin v" using is_fin_D by blast
    have "grid s' = set_cell (grid s) row col OPPONENT"
      using assms(1) r unfolding keeps_grid_def by (metis grid_assign snd_conv)
    then have restored: "grid (assign row col EMPTY s') = grid s"
      using True by (simp add: set_cell_undo)
    have fin: "is_fin (js_max maxEval ev)"
      using Cons.prems(2) ev js_max_fin by simp
    then have ne: "js_max maxEval ev \<noteq> PosInf" using is_fin_not_inf by blast
    have wf2: "wf_board (grid (assign row col EMPTY s'))"
      using restored Cons.prems(1) by simp
    show ?thesis
      using True r fin ne Cons.IH[OF wf2 ne, of "js_max alpha ev"] restored
      by (auto simp: Let_def)
  qed
qed

lemma min_rows_fin:
  assumes "keeps_grid rec" "fin_on_boards rec"
  shows "wf_board (grid s) \<Longrightarrow> minEval \<noteq> NegInf \<Longrightarrow>
         (case min_rows rec col alpha rows (s, minEval, beta) of (s', m', b') \<Rightarrow>
            m' \<noteq> NegInf \<and>
            (is_fin minEval \<or> (\<exists>row \<in> set rows. cellAt (grid s) row col = EMPTY) \<longrightarrow> is_fin m'))"
proof (induction rows arbitrary: s minEval beta)
  case Nil
  then show ?case by simp
next
  case (Cons row rows)
  show ?case
  proof (cases "cellAt (grid s) row col = EMPTY")
    case False
    then show ?thesis using Cons.IH[OF Cons.prems] by auto
  next
    case True
    obtain ev s' where r: "rec (assign row col PLAYER s) alpha beta = (ev, s')"
      by (cases "rec (assign row col PLAYER s) alpha beta") auto
    have wf1: "wf_board (grid (assign row col PLAYER s))"
      using Cons.prems(1) by (simp add: wf_set_cell)
    then have "is_fin ev"
      using assms(2) r unfolding fin_on_boards_def by (metis fst_conv)
    then obtain v where ev: "ev = Fin v" using is_fin_D by blast
    have "grid s' = set_cell (grid s) row col PLAYER"
      using assms(1) r unfolding keeps_grid_def by (metis grid_assign snd_conv)
    then have restored: "grid (assign row col EMPTY s') = grid s"
      using True by (simp add: set_cell_undo)
    have fin: "is_fin (js_min minEval ev)"
      using Cons.prems(2) ev js_min_fin by simp
    then have ne: "js_min minEval ev \<noteq> NegInf" using is_fin_not_inf by blast
    have wf2: "wf_board (grid (assign row col EMPTY s'))"
      using restored Cons.prems(1) by simp
    show ?thesis
      using True r fin ne Cons.IH[OF wf2 ne, of "js_min beta ev"] restored
      by (auto simp: Let_def)
  qed
qed


lemma max_cols_fin:
  assumes "keeps_grid rec" "fin_on_boards rec"
  shows "wf_board (grid s) \<Longrightarrow> maxEval \<noteq> PosInf \<Longrightarrow>
         (case foldl (\<lambda>acc col. max_rows rec col beta rows acc) (s, maxEval, alpha) cols of
            (s', m', a') \<Rightarrow>
              m' \<noteq> PosInf \<and>
              (is_fin maxEval \<or>
               (\<exists>col \<in> set cols. \<exists>row \<in> set rows. cellAt (grid s) row col = EMPTY)
               \<longrightarrow> is_fin m'))"
proof (induction cols arbitrary: s maxEval alpha)
  case Nil
  then show ?case by simp
next
  case (Cons col cols)
  obtain s1 m1 a1 where st: "max_rows rec col beta rows (s, maxEval, alpha) = (s1, m1, a1)"
    by (cases "max_rows rec col beta rows (s, maxEval, alpha)") auto
  have g: "grid s1 = grid s"
    using max_rows_grid[OF assms(1), of col beta rows s maxEval alpha] st by simp
  have one: "m1 \<noteq> PosInf"
    "is_fin maxEval \<or> (\<exists>row \<in> set rows. cellAt (grid s) row col = EMPTY) \<longrightarrow> is_fin m1"
    using max_rows_fin[OF assms Cons.prems, where col=col and beta=beta and rows=rows and alpha=alpha] st by simp_all
  have wf1: "wf_board (grid s1)" using g Cons.prems(1) by simp
  show ?case
    using Cons.IH[OF wf1 one(1), of a1] one(2) st g by auto
qed

lemma min_cols_fin:
  assumes "keeps_grid rec" "fin_on_boards rec"
  shows "wf_board (grid s) \<Longrightarrow> minEval \<noteq> NegInf \<Longrightarrow>
         (case foldl (\<lambda>acc col. min_rows rec col alpha rows acc) (s, minEval, beta) cols of
            (s', m', b') \<Rightarrow>
              m' \<noteq> NegInf \<and>
              (is_fin minEval \<or>
               (\<exists>col \<in> set cols. \<exists>row \<in> set rows. cellAt (grid s) row col = EMPTY)
               \<longrightarrow> is_fin m'))"
proof (induction cols arbitrary: s minEval beta)
  case Nil
  then show ?case by simp
next
  case (Cons col cols)
  obtain s1 m1 b1 where st: "min_rows rec col alpha rows (s, minEval, beta) = (s1, m1, b1)"
    by (cases "min_rows rec col alpha rows (s, minEval, beta)") auto
  have g: "grid s1 = grid s"
    using min_rows_grid[OF assms(1), of col alpha rows s minEval beta] st by simp
  have one: "m1 \<noteq> NegInf"
    "is_fin minEval \<or> (\<exists>row \<in> set rows. cellAt (grid s) row col = EMPTY) \<longrightarrow> is_fin m1"
    using min_rows_fin[OF assms Cons.prems, where col=col and alpha=alpha and rows=rows and beta=beta] st by simp_all
  have wf1: "wf_board (grid s1)" using g Cons.prems(1) by simp
  show ?case
    using Cons.IH[OF wf1 one(1), of b1] one(2) st g by auto
qed

lemma open_top_cell:
  assumes "wf_board b" "\<not> isBoardFull b"
  shows "\<exists>col \<in> set [0..<COLS]. \<exists>row \<in> set rows_down. cellAt b row col = EMPTY"
proof -
  have len: "length (b ! 0) = COLS"
    using assms(1) by (simp add: wf_board_def list_all_length)
  from assms(2) obtain col where "col < length (b ! 0)" "b ! 0 ! col = EMPTY"
    by (auto simp: isBoardFull_def list_all_length)
  then have "col \<in> set [0..<COLS]" "(0::nat) \<in> set rows_down" "cellAt b 0 col = EMPTY"
    using len by (simp_all add: rows_down_def cellAt_def)
  then show ?thesis by blast
qed

lemma max_layer_fin:
  assumes "keeps_grid rec" "fin_on_boards rec" "wf_board (grid s)" "\<not> isBoardFull (grid s)"
  shows "is_fin (fst (max_layer rec s alpha beta))"
  using max_cols_fin[OF assms(1,2,3), where maxEval=NegInf and beta=beta and rows=rows_down and alpha=alpha and cols="[0..<COLS]"]
    open_top_cell[OF assms(3,4)]
  by (auto simp: max_layer_def split: prod.splits)

lemma min_layer_fin:
  assumes "keeps_grid rec" "fin_on_boards rec" "wf_board (grid s)" "\<not> isBoardFull (grid s)"
  shows "is_fin (fst (min_layer rec s alpha beta))"
  using min_cols_fin[OF assms(1,2,3), where minEval=PosInf and alpha=alpha and rows=rows_down and beta=beta and cols="[0..<COLS]"]
    open_top_cell[OF assms(3,4)]
  by (auto simp: min_layer_def split: prod.splits)

lemma minimax_fin: "wf_board (grid s) \<Longrightarrow> is_fin (fst (minimax depth s alpha beta m))"
proof (induction depth arbitrary: s alpha beta m)
  case 0
  then show ?case by (simp add: minimax.simps is_fin_def)
next
  case (Suc d)
  have k: "keeps_grid (\<lambda>s' a b. minimax d s' a b m')" for m'
    unfolding keeps_grid_def using minimax_grid by simp
  have f: "fin_on_boards (\<lambda>s' a b. minimax d s' a b m')" for m'
    unfolding fin_on_boards_def using Suc.IH by simp
  show ?case
    using Suc.prems
    by (subst minimax.simps)
       (simp add: is_fin_def[of "Fin _"] max_layer_fin[OF k f] min_layer_fin[OF k f])
qed


lemma js_gt_fin: "is_fin score \<Longrightarrow> js_gt score bestScore \<Longrightarrow> score \<noteq> NegInf"
  by (cases score) (simp_all add: is_fin_def)

lemma not_js_gt_NegInf: "is_fin score \<Longrightarrow> \<not> js_gt score bestScore \<Longrightarrow> bestScore \<noteq> NegInf"
  by (cases score; cases bestScore) (simp_all add: is_fin_def js_gt_def)

lemma hard_step_inv:
  assumes "wf_board b" "hard_inv b tried acc"
  shows "hard_inv b (tried @ [col]) (hard_step acc col)"
proof -
  obtain s bestScore move where acc: "acc = (s, bestScore, move)" by (cases acc) auto
  have g: "grid s = b" using assms(2) acc by (simp add: hard_inv_def)
  show ?thesis
  proof (cases "lowestEmptyRow b col")
    case None
    then show ?thesis
      using assms(2) acc g by (auto simp: hard_inv_def hard_step_def)
  next
    case (Some row)
    then have e: "cellAt (grid s) row col = EMPTY"
      using g by (auto simp: lowestEmptyRow_def find_Some_iff)
    obtain score s' where
      r: "minimax MAX_DEPTH (assign row col OPPONENT s) NegInf PosInf False = (score, s')"
      by (cases "minimax MAX_DEPTH (assign row col OPPONENT s) NegInf PosInf False") auto
    have "wf_board (grid (assign row col OPPONENT s))"
      using assms(1) g by (simp add: wf_set_cell)
    then have fin: "is_fin score"
      using minimax_fin[of "assign row col OPPONENT s" MAX_DEPTH NegInf PosInf False] r by simp
    have "grid s' = set_cell (grid s) row col OPPONENT"
      using minimax_grid[of MAX_DEPTH "assign row col OPPONENT s" NegInf PosInf False] r by simp
    then have restored: "grid (assign row col EMPTY s') = b"
      using e g by (simp add: set_cell_undo)
    show ?thesis
    proof (cases "js_gt score bestScore")
      case True
      then have "hard_step acc col = (assign row col EMPTY s', score, int col)"
        using Some r g by (simp add: acc hard_step_def Let_def)
      then show ?thesis
        using restored fin js_gt_fin[OF fin True] Some by (simp add: acc hard_inv_def)
    next
      case False
      then have st: "hard_step acc col = (assign row col EMPTY s', bestScore, move)"
        using Some r g by (simp add: acc hard_step_def Let_def)
      have "bestScore \<noteq> NegInf" using not_js_gt_NegInf[OF fin False] .
      then show ?thesis
        using assms(2) restored st by (simp add: acc hard_inv_def)
    qed
  qed
qed

lemma foldl_hard_inv:
  assumes "wf_board b"
  shows "hard_inv b tried acc \<Longrightarrow> hard_inv b (tried @ cols) (foldl hard_step acc cols)"
proof (induction cols arbitrary: tried acc)
  case Nil
  then show ?case by simp
next
  case (Cons col cols)
  have "hard_inv b ((tried @ [col]) @ cols) (foldl hard_step (hard_step acc col) cols)"
    by (rule Cons.IH) (rule hard_step_inv[OF assms Cons.prems])
  then show ?case by simp
qed

lemma bestMove_hard_legal:
  assumes "wf_board (grid s)" "col < COLS" "\<not> column_full (grid s) col"
  shows "0 \<le> fst (bestMove_hard s) \<and> fst (bestMove_hard s) < int COLS
         \<and> \<not> column_full (grid s) (nat (fst (bestMove_hard s)))"
proof -
  obtain s' bestScore move where
    run: "foldl hard_step (s, NegInf, - 1) [0..<COLS] = (s', bestScore, move)"
    by (cases "foldl hard_step (s, NegInf, - 1) [0..<COLS]") auto
  have "hard_inv (grid s) [] (s, NegInf, - 1)"
    by (simp add: hard_inv_def)
  from foldl_hard_inv[OF assms(1) this, of "[0..<COLS]"] run
  have inv: "hard_inv (grid s) [0..<COLS] (s', bestScore, move)" by simp
  have open_col: "lowestEmptyRow (grid s) col \<noteq> None"
    using assms(3) by (simp add: column_full_lowest)
  have "bestScore \<noteq> NegInf"
  proof
    assume "bestScore = NegInf"
    then have "list_all (\<lambda>c. lowestEmptyRow (grid s) c = None) [0..<COLS]"
      using inv by (simp add: hard_inv_def)
    then have "lowestEmptyRow (grid s) col = None"
      using assms(2) by (simp add: list_all_iff)
    then show False using open_col by simp
  qed
  then have "0 \<le> move" "nat move \<in> set [0..<COLS]" "lowestEmptyRow (grid s) (nat move) \<noteq> None"
    using inv by (simp_all add: hard_inv_def)
  moreover have "fst (bestMove_hard s) = move"
    using run by (simp add: bestMove_hard_def)
  ultimately show ?thesis
    by (auto simp: column_full_lowest)
qed

section \<open>The move the easy search records\<close>

lemma generateSuccessors_drop:
  assumes "(b', col) \<in> set (generateSuccessors b player)"
  shows "b' = placePiece (Some (int col)) player b"
proof -
  from assms obtain row where "col < COLS" "lowestEmptyRow b col = Some row"
      "b' = set_cell b row col player"
    by (auto simp: generateSuccessors_def split: option.splits) metis
  then show ?thesis by (simp add: placePiece_def)
qed

lemma play_snoc:
  "play b0 player (path @ [col]) = placePiece (Some (int col)) player (play b0 player path)"
  by (simp add: play_def)

lemma successor_records:
  assumes "records_last_ply b0 player cur"
    and "b' = placePiece (Some (int col)) player (n_board cur)"
  shows "records_last_ply b0 player
           \<lparr>n_board = b', n_move = Some col, n_g = g', n_h = None, n_f = f',
            n_path = n_path cur @ [col]\<rparr>"
  using assms by (simp add: records_last_ply_def play_snoc)

lemma expand_records:
  assumes "records_last_ply b0 player cur"
    and "\<forall>n \<in> set openList. records_last_ply b0 player n"
    and "\<forall>(b', col) \<in> set succs. b' = placePiece (Some (int col)) player (n_board cur)"
  shows "\<forall>n \<in> set (expand cur closedList openList succs). records_last_ply b0 player n"
  using assms(2,3)
proof (induction succs arbitrary: openList)
  case Nil
  then show ?case by simp
next
  case (Cons sc succs)
  obtain b' col where sc: "sc = (b', col)" by (cases sc) auto
  let ?new = "\<lparr>n_board = b', n_move = Some col, n_g = n_g cur + 1, n_h = None,
               n_f = n_g cur + 1, n_path = n_path cur @ [col]\<rparr>"
  have new: "records_last_ply b0 player ?new"
    using successor_records[OF assms(1)] Cons.prems(2) sc by simp
  have rest: "\<forall>(b', col) \<in> set succs. b' = placePiece (Some (int col)) player (n_board cur)"
    using Cons.prems(2) by simp
  have keep: "\<forall>n \<in> set (expand cur closedList openList succs). records_last_ply b0 player n"
    using Cons.IH[OF Cons.prems(1) rest] .
  have "\<forall>n \<in> set (openList @ [?new]). records_last_ply b0 player n"
    using Cons.prems(1) new by simp
  then have push: "\<forall>n \<in> set (expand cur closedList (openList @ [?new]) succs).
                     records_last_ply b0 player n"
    using Cons.IH[OF _ rest] by blast
  show ?case
    using keep push by (simp add: sc split: option.splits)
qed

lemma aStarLoop_records:
  assumes "aStarLoop fuel player openList closedList = Some (Some n)"
    and "\<forall>m \<in> set openList. records_last_ply b0 player m"
  shows "records_last_ply b0 player n \<and> truthy (checkWin (n_board n) OPPONENT)"
  using assms
proof (induction fuel player openList closedList rule: aStarLoop.induct)
  case (1 fuel player closedList)
  then show ?case by simp
next
  case (2 player n' ns closedList)
  then show ?case by simp
next
  case (3 fuel player n' ns closedList)
  obtain cur rest where srt: "sort_key n_f (n' # ns) = cur # rest"
    by (cases "sort_key n_f (n' # ns)") (auto dest: arg_cong[where f = length])
  have "set (cur # rest) = set (n' # ns)"
    using srt by (metis set_sort)
  then have all: "\<forall>m \<in> set (cur # rest). records_last_ply b0 player m"
    using "3.prems"(2) by blast
  show ?case
  proof (cases "truthy (checkWin (n_board cur) OPPONENT)")
    case True
    then have "n = cur" using "3.prems"(1) srt by simp
    then show ?thesis using True all by simp
  next
    case False
    let ?closed = "closedList @ [cur]"
    let ?open = "expand cur ?closed rest (generateSuccessors (n_board cur) player)"
    have run: "aStarLoop fuel player ?open ?closed = Some (Some n)"
      using "3.prems"(1) srt False by simp
    have "\<forall>m \<in> set ?open. records_last_ply b0 player m"
      by (rule expand_records) (use all generateSuccessors_drop in auto)
    then show ?thesis
      using "3.IH"[OF srt False run] by simp
  qed
qed

lemma startNode_records: "records_last_ply b player' (startNode b hv)"
  by (simp add: records_last_ply_def startNode_def play_def)



lemma cellAt_set_cell_other_col:
  assumes "c1 \<noteq> c2"
  shows "cellAt (set_cell b r c2 v) row c1 = cellAt b row c1"
proof (cases "row = r \<and> r < length b")
  case True
  then show ?thesis using assms by (simp add: cellAt_def set_cell_def)
next
  case False
  then show ?thesis
    by (cases "row = r") (simp_all add: cellAt_def set_cell_def list_update_beyond)
qed

lemma lowestEmptyRow_other_col:
  assumes "c1 \<noteq> c2"
  shows "lowestEmptyRow (set_cell b r c2 v) c1 = lowestEmptyRow b c1"
  by (simp add: lowestEmptyRow_def cellAt_set_cell_other_col[OF assms])

lemma set_cell_swap:
  assumes "c1 \<noteq> c2"
  shows "set_cell (set_cell b r1 c1 v) r2 c2 w = set_cell (set_cell b r2 c2 w) r1 c1 v"
proof (cases "r1 = r2")
  case True
  show ?thesis
  proof (cases "r1 < length b")
    case True
    then show ?thesis
      using \<open>r1 = r2\<close> assms by (simp add: set_cell_def list_update_swap)
  next
    case False
    then show ?thesis
      using \<open>r1 = r2\<close> by (simp add: set_cell_def list_update_beyond)
  qed
next
  case False
  then show ?thesis
    by (simp add: set_cell_def list_update_swap)
qed

lemma placePiece_swap:
  "placePiece (Some (int c1)) player (placePiece (Some (int c2)) player b)
     = placePiece (Some (int c2)) player (placePiece (Some (int c1)) player b)"
proof (cases "c1 = c2")
  case True
  then show ?thesis by simp
next
  case False
  then have ne: "c1 \<noteq> c2" "c2 \<noteq> c1" by simp_all
  show ?thesis
    by (auto simp: placePiece_def lowestEmptyRow_other_col[OF ne(1)]
        lowestEmptyRow_other_col[OF ne(2)] set_cell_swap[OF ne(1)] split: option.splits)
qed

lemma play_Cons:
  "play b player (col # path) = play (placePiece (Some (int col)) player b) player path"
  by (simp add: play_def)

lemma play_last_first:
  "play b player (path @ [col]) = play b player (col # path)"
proof (induction path arbitrary: b)
  case Nil
  then show ?case by simp
next
  case (Cons c path)
  have "play b player ((c # path) @ [col])
          = play (placePiece (Some (int c)) player b) player (path @ [col])"
    by (simp add: play_Cons)
  also have "\<dots> = play (placePiece (Some (int c)) player b) player (col # path)"
    by (rule Cons.IH)
  also have "\<dots> = play (placePiece (Some (int col)) player (placePiece (Some (int c)) player b))
                       player path"
    by (simp add: play_Cons)
  also have "\<dots> = play (placePiece (Some (int c)) player (placePiece (Some (int col)) player b))
                       player path"
    by (simp only: placePiece_swap)
  also have "\<dots> = play b player (col # c # path)"
    by (simp add: play_Cons)
  finally show ?case .
qed

lemma play_rotate:
  "path \<noteq> [] \<Longrightarrow> play b player path = play b player (last path # butlast path)"
  using play_last_first[of b player "butlast path" "last path"] by simp

text \<open>
  The loop of \<^verbatim>\<open>aStarSearch\<close> by itself, started from any start node: a node it returns
  holds an Opponent line of four, and its \<^verbatim>\<open>move\<close> is the column of the last ply of the path
  by which the loop reached it (\<^verbatim>\<open>null\<close> for the start node). In the program the loop is
  never entered: the call that builds the start node throws, as the next two sections show.
\<close>

lemma aStarLoop_returns_last_ply:
  assumes "aStarLoop fuel OPPONENT [startNode b hv] [] = Some (Some n)"
  shows "n_move n = (if n_path n = [] then None else Some (last (n_path n)))
         \<and> n_board n = play b OPPONENT (n_path n)
         \<and> truthy (checkWin (n_board n) OPPONENT)"
proof -
  have "records_last_ply b OPPONENT n \<and> truthy (checkWin (n_board n) OPPONENT)"
    by (rule aStarLoop_records[OF assms]) (simp add: startNode_records)
  then show ?thesis
    unfolding records_last_ply_def by blast
qed

section \<open>The start node of the easy search\<close>

text \<open>
  Claim C7 says that building the start node succeeds, with \<^verbatim>\<open>h\<close> the evaluator's score. In
  the program \<^verbatim>\<open>heuristicEasy\<close> is bound to nothing: on every board, for every side and
  however long the loop might run, the call inside the start node's object literal throws
  \<^verbatim>\<open>ReferenceError\<close> and \<^const>\<open>aStarSearch\<close> ends there, before any node exists.
\<close>

theorem aStarSearch_throws_ReferenceError:
  "heuristicEasy program_env b = Inl ReferenceError
   \<and> aStarSearch program_env fuel b player = Throws ReferenceError"
  by (simp add: aStarSearch_def heuristicEasy_def program_env_def)

section \<open>What the easy branch answers\<close>

lemma late_board_wf: "wf_board late_board"
  by (simp add: wf_board_def late_board_def)

lemma late_board_lowest: "lowestEmptyRow late_board 0 = Some 1"
  by code_simp

lemma late_board_full_column: "column_full late_board 2"
  by code_simp

lemma late_board_column_0_open: "\<not> column_full late_board 0"
  by code_simp

lemma easy_branch_throws:
  "fst (bestMove program_env fuel rnd s (Some ''easy'')) = Throws ReferenceError"
  by (simp add: bestMove_def aStarSearch_def heuristicEasy_def program_env_def)


text \<open>
  Claim C3 says that \<^const>\<open>bestMove\<close> returns a column with an empty cell for both
  difficulties. On every board of 6 rows of 7 cells that has a column with an empty cell,
  the hard branch (every \<open>difficulty\<close> but \<^verbatim>\<open>'easy'\<close>) does: it returns a column of
  \<open>[0, COLS)\<close> that has an empty cell. The easy branch returns no column: it throws
  \<^verbatim>\<open>ReferenceError\<close>, and the fallback to a random column is never reached.
\<close>

theorem hard_branch_legal_easy_branch_throws:
  assumes "wf_board (grid s)" and "col < COLS" and "\<not> column_full (grid s) col"
    and "difficulty \<noteq> Some ''easy''"
  shows "fst (bestMove program_env fuel rnd s difficulty) = Returns (Some (fst (bestMove_hard s)))
         \<and> 0 \<le> fst (bestMove_hard s) \<and> fst (bestMove_hard s) < int COLS
         \<and> \<not> column_full (grid s) (nat (fst (bestMove_hard s)))
         \<and> fst (bestMove program_env fuel rnd s (Some ''easy'')) = Throws ReferenceError"
  using assms bestMove_hard_legal[OF assms(1,2,3)]
  by (simp add: easy_branch_throws) (simp add: bestMove_def case_prod_beta)

text \<open>
  At \<^const>\<open>late_board\<close>, where column 0 has an empty cell: the hard branch answers with a
  column that has an empty cell, the easy branch throws.
\<close>

theorem hard_branch_legal_easy_branch_throws_witness:
  "wf_board (grid (fresh late_board)) \<and> (0::nat) < COLS
   \<and> \<not> column_full (grid (fresh late_board)) 0
   \<and> Some ''hard'' \<noteq> Some ''easy''
   \<and> fst (bestMove program_env 10 2 (fresh late_board) (Some ''hard''))
       = Returns (Some (fst (bestMove_hard (fresh late_board))))
   \<and> 0 \<le> fst (bestMove_hard (fresh late_board))
   \<and> fst (bestMove_hard (fresh late_board)) < int COLS
   \<and> \<not> column_full (grid (fresh late_board)) (nat (fst (bestMove_hard (fresh late_board))))
   \<and> fst (bestMove program_env 10 2 (fresh late_board) (Some ''easy'')) = Throws ReferenceError"
proof -
  have g: "grid (fresh late_board) = late_board" by (simp add: fresh_def)
  have h1: "wf_board (grid (fresh late_board))" using late_board_wf g by simp
  have h2: "\<not> column_full (grid (fresh late_board)) 0" using late_board_column_0_open g by simp
  have h4: "Some ''hard'' \<noteq> Some ''easy''" by simp
  have h5: "(0::nat) < COLS" by simp
  from hard_branch_legal_easy_branch_throws[OF h1 h5 h2 h4, of 10 2]
  show ?thesis using h1 h2 h4 h5 by blast
qed

section \<open>The cells minimax writes\<close>

lemma late_board_layer_writes:
  "writes (snd (minimax 1 (fresh late_board) NegInf PosInf True))
     = [(1, 0, OPPONENT), (1, 0, EMPTY), (0, 0, OPPONENT), (0, 0, EMPTY),
        (0, 1, OPPONENT), (0, 1, EMPTY)]"
  by code_simp

lemma late_board_layer_floating:
  "floating late_board (writes (snd (minimax 1 (fresh late_board) NegInf PosInf True)))
     = [(0, 0, OPPONENT)]"
  by code_simp

lemma late_board_hard_floating:
  "floating late_board (writes (snd (bestMove_hard (fresh late_board)))) = [(0, 0, PLAYER)]"
  by code_simp

text \<open>
  Claim C1 at \<^const>\<open>late_board\<close>, whose column 0 has its lowest empty cell in row 1. One
  maximizing layer (depth 1, bounds \<^verbatim>\<open>-Infinity\<close> and \<^verbatim>\<open>Infinity\<close>) places the Opponent in
  column 0 twice: at \<open>(1, 0)\<close> and, after the undo, at \<open>(0, 0)\<close> above the empty \<open>(1, 0)\<close>.
  The hard branch of \<^const>\<open>bestMove\<close> on the same board reaches a layer that places the
  Player at \<open>(0, 0)\<close> above the empty \<open>(1, 0)\<close>.
\<close>

theorem minimax_places_above_lowest_empty_cell:
  "lowestEmptyRow late_board 0 = Some 1
   \<and> writes (snd (minimax 1 (fresh late_board) NegInf PosInf True))
       = [(1, 0, OPPONENT), (1, 0, EMPTY), (0, 0, OPPONENT), (0, 0, EMPTY),
          (0, 1, OPPONENT), (0, 1, EMPTY)]
   \<and> floating late_board (writes (snd (minimax 1 (fresh late_board) NegInf PosInf True)))
       = [(0, 0, OPPONENT)]
   \<and> floating late_board (writes (snd (bestMove_hard (fresh late_board)))) = [(0, 0, PLAYER)]"
  by (intro conjI)
    (rule late_board_lowest, rule late_board_layer_writes, rule late_board_layer_floating,
     rule late_board_hard_floating)

lemma first_leaf_score: "heuristic (set_cell empty_board 5 0 OPPONENT) = 5"
  by code_simp

lemma first_leaf_cutoff: "js_le (Fin 0) (js_max NegInf (Fin 5))"
  by code_simp

lemma empty_board_layer_run:
  "placements (snd (minimax 1 (fresh empty_board) NegInf (Fin 0) True))
     = [(5, 0), (5, 1), (5, 2), (5, 3), (5, 4), (5, 5), (5, 6)]"
  by code_simp

text \<open>
  Claim C4 on the empty board, one maximizing layer with \<^verbatim>\<open>alpha = -Infinity\<close> and
  \<^verbatim>\<open>beta = 0\<close>. The first move, at \<open>(5, 0)\<close>, evaluates to 5, so \<^verbatim>\<open>alpha\<close> becomes 5 and
  \<^verbatim>\<open>beta <= alpha\<close> holds; the \<^verbatim>\<open>break\<close> leaves the row loop of column 0 only, and the
  layer goes on to place a piece in each of the columns 1 to 6.
\<close>

theorem cutoff_leaves_only_the_row_loop:
  "heuristic (set_cell empty_board 5 0 OPPONENT) = 5
   \<and> js_le (Fin 0) (js_max NegInf (Fin 5))
   \<and> placements (snd (minimax 1 (fresh empty_board) NegInf (Fin 0) True))
       = [(5, 0), (5, 1), (5, 2), (5, 3), (5, 4), (5, 5), (5, 6)]"
  by (intro conjI) (rule first_leaf_score, rule first_leaf_cutoff, rule empty_board_layer_run)

section \<open>A drop into a full column\<close>


text \<open>
  The boards at which \<^verbatim>\<open>playGame\<close> prompts: the empty board is \<^const>\<open>in_play\<close>, and so
  is the board after every run of the callback that prompts again. A piece of the Opponent
  in an empty cell changes no cell of the Player, so it completes no line of the Player.
\<close>

lemma cellAt_PLAYER_after_other:
  assumes "cellAt b r c = EMPTY" "v \<noteq> PLAYER"
  shows "cellAt (set_cell b r c v) row col = PLAYER \<longleftrightarrow> cellAt b row col = PLAYER"
proof (cases "row = r \<and> col = c")
  case True
  show ?thesis
  proof (cases "r < length b \<and> c < length (b ! r)")
    case True
    then show ?thesis
      using \<open>row = r \<and> col = c\<close> assms by (simp add: cellAt_def set_cell_def)
  next
    case False
    then have "set_cell b r c v = b"
      by (auto simp: set_cell_def list_update_beyond)
    then show ?thesis by simp
  qed
next
  case False
  show ?thesis
  proof (cases "row = r")
    case True
    then have "col \<noteq> c" using False by simp
    then show ?thesis
      using True by (cases "r < length b") (simp_all add: cellAt_def set_cell_def list_update_beyond)
  next
    case False
    then show ?thesis by (simp add: cellAt_def set_cell_def)
  qed
qed

lemma checkWin_PLAYER_after_other:
  assumes "cellAt b r c = EMPTY" "v \<noteq> PLAYER"
  shows "checkWin (set_cell b r c v) PLAYER = checkWin b PLAYER"
  by (simp add: checkWin_def checkDirection_def cellAt_PLAYER_after_other[OF assms])

lemma lowestEmptyRow_empty:
  "lowestEmptyRow b col = Some row \<Longrightarrow> cellAt b row col = EMPTY"
  by (auto simp: lowestEmptyRow_def find_Some_iff)

lemma checkWin_PLAYER_after_opponent:
  "checkWin (placePiece move OPPONENT b) PLAYER = checkWin b PLAYER"
  by (auto simp: placePiece_def checkWin_PLAYER_after_other lowestEmptyRow_empty
      split: option.splits)

lemma wf_placePiece: "wf_board b \<Longrightarrow> wf_board (placePiece col player b)"
  by (auto simp: placePiece_def wf_set_cell split: option.splits)

lemma in_play_empty_board: "in_play empty_board"
  by code_simp

lemma bestMove_undefined:
  "bestMove env fuel rnd s None = (Returns (Some (fst (bestMove_hard s))), snd (bestMove_hard s))"
  by (simp add: bestMove_def case_prod_beta)

lemma playGame_in_range:
  assumes "0 \<le> c" "c < int COLS"
  shows "playGame env fuel rnd b (Some c) =
     (let b1 = placePiece (Some c) PLAYER b in
      if checkWin b1 PLAYER = Some PLAYER then Returns (PlayerWins, b1)
      else if isBoardFull b1 then Returns (Draw, b1)
      else opponent_turn b1)"
  using assms
  by (simp add: playGame_def bestMove_undefined bestMove_hard_grid fresh_def opponent_turn_def Let_def)

lemma in_play_next_turn:
  assumes "in_play b" "playGame env fuel rnd b column = Returns (NextTurn, b')"
  shows "in_play b'"
proof -
  from assms(2) obtain c where col: "column = Some c" "0 \<le> c" "c < int COLS"
    by (auto simp: playGame_def split: option.splits if_splits)
  let ?b1 = "placePiece (Some c) PLAYER b"
  let ?b2 = "placePiece (Some (fst (bestMove_hard (fresh ?b1)))) OPPONENT ?b1"
  from assms(2) have no_line: "checkWin ?b1 PLAYER \<noteq> Some PLAYER"
    and b': "b' = ?b2" and open_top: "\<not> isBoardFull ?b2"
    unfolding col(1) playGame_in_range[OF col(2,3)]
    by (auto simp: Let_def opponent_turn_def split: if_splits)
  have "wf_board ?b2"
    using assms(1) by (simp add: in_play_def wf_placePiece)
  moreover have "checkWin ?b2 PLAYER \<noteq> Some PLAYER"
    using no_line by (simp add: checkWin_PLAYER_after_opponent)
  ultimately show ?thesis
    using open_top b' by (simp add: in_play_def)
qed

lemma invalid_column_keeps_board:
  assumes "playGame env fuel rnd b column = Returns (InvalidColumn, b')"
  shows "b' = b"
proof (cases column)
  case None
  then show ?thesis using assms by (simp add: playGame_def)
next
  case (Some c)
  show ?thesis
  proof (cases "0 \<le> c \<and> c < int COLS")
    case True
    then show ?thesis
      using assms Some playGame_in_range[of c env fuel rnd b]
      by (auto simp: Let_def opponent_turn_def split: if_splits)
  next
    case False
    then show ?thesis using assms Some by (auto simp: playGame_def)
  qed
qed

lemma late_board_no_player_line: "checkWin late_board PLAYER \<noteq> Some PLAYER"
  by code_simp

lemma late_board_not_full: "\<not> isBoardFull late_board"
  by code_simp



text \<open>
  Claim C10. On a board on which the game is still on (6 rows of 7 cells, no Player line,
  top row not full: what holds at every prompt, see \<open>in_play_empty_board\<close> and
  \<open>in_play_next_turn\<close>), let the human enter a column of \<open>[0, COLS)\<close> that has no empty
  cell. Then \<^const>\<open>placePiece\<close> leaves the board as it is, and the callback of \<^verbatim>\<open>playGame\<close>
  neither throws nor reports an invalid column: it goes on with the Opponent's move on the
  unchanged board and ends as that move decides. The Opponent's column is in range and has
  an empty cell, so its piece is placed: the human's turn is lost.
\<close>

theorem full_column_input_forfeits_turn:
  assumes "wf_board b" and "0 \<le> c" and "c < int COLS" and "column_full b (nat c)"
    and "checkWin b PLAYER \<noteq> Some PLAYER" and "\<not> isBoardFull b"
  shows "placePiece (Some c) PLAYER b = b
         \<and> playGame env fuel rnd b (Some c) = opponent_turn b
         \<and> opponent_turn b =
             Returns (if checkWin (placePiece (Some (fst (bestMove_hard (fresh b)))) OPPONENT b)
                           OPPONENT = Some OPPONENT then OpponentWins
                      else if isBoardFull (placePiece (Some (fst (bestMove_hard (fresh b)))) OPPONENT b)
                      then Draw else NextTurn,
                      placePiece (Some (fst (bestMove_hard (fresh b)))) OPPONENT b)
         \<and> 0 \<le> fst (bestMove_hard (fresh b)) \<and> fst (bestMove_hard (fresh b)) < int COLS
         \<and> \<not> column_full b (nat (fst (bestMove_hard (fresh b))))
         \<and> placePiece (Some (fst (bestMove_hard (fresh b)))) OPPONENT b \<noteq> b"
proof -
  let ?m = "fst (bestMove_hard (fresh b))"
  from open_top_cell[OF assms(1,6)] obtain col row0 where
    col: "col < COLS" "row0 \<in> set rows_down" "cellAt b row0 col = EMPTY"
    by auto
  then have "\<not> column_full b col"
    by (auto simp: column_full_def list_all_iff rows_down_def)
  from bestMove_hard_legal[of "fresh b" col] this col(1) assms(1)
  have legal: "0 \<le> ?m" "?m < int COLS" "\<not> column_full b (nat ?m)"
    by (simp_all add: fresh_def)
  then obtain row where row: "lowestEmptyRow b (nat ?m) = Some row"
    by (auto simp: column_full_lowest)
  have len: "row < length b" "nat ?m < length (b ! row)"
  proof -
    have "row \<in> set rows_down"
      using row by (auto simp: lowestEmptyRow_def find_Some_iff in_set_conv_nth)
    then show "row < length b"
      using assms(1) by (simp add: rows_down_def wf_board_def)
    then show "nat ?m < length (b ! row)"
      using assms(1) legal by (simp add: wf_board_def list_all_length)
  qed
  have "cellAt (set_cell b row (nat ?m) OPPONENT) row (nat ?m) = OPPONENT"
    using len by (simp add: cellAt_def set_cell_def)
  moreover have "cellAt b row (nat ?m) = EMPTY"
    using row by (rule lowestEmptyRow_empty)
  ultimately have "set_cell b row (nat ?m) OPPONENT \<noteq> b" by auto
  then have changed: "placePiece (Some ?m) OPPONENT b \<noteq> b"
    using legal row by (simp add: placePiece_def)
  have "placePiece (Some c) PLAYER b = b"
    using assms by (simp add: placePiece_def column_full_lowest)
  then show ?thesis
    using assms legal changed by (simp add: playGame_in_range opponent_turn_def Let_def)
qed

theorem full_column_input_forfeits_turn_witness:
  "wf_board late_board \<and> (0::int) \<le> 2 \<and> (2::int) < int COLS \<and> column_full late_board (nat 2)
   \<and> checkWin late_board PLAYER \<noteq> Some PLAYER \<and> \<not> isBoardFull late_board
   \<and> placePiece (Some 2) PLAYER late_board = late_board
   \<and> playGame program_env 0 0 late_board (Some 2) = opponent_turn late_board"
  using full_column_input_forfeits_turn[of late_board 2 program_env 0 0]
    late_board_wf late_board_full_column late_board_no_player_line late_board_not_full
  by simp




end
